theory Spec2Isabelle
  imports Main "HOL-Library.Sublist"
begin

section \<open>Strings\<close>

text \<open>
  The program is \<^verbatim>\<open>src/ci_bot.py\<close>. Python strings are modelled as \<^typ>\<open>string\<close>
  over ASCII: \<^verbatim>\<open>\d\<close> is one of the ten ASCII digits, whitespace is the ASCII
  whitespace of \<^verbatim>\<open>str.strip()\<close>, and \<^verbatim>\<open>str.lower()\<close> maps \<^verbatim>\<open>A\<close>..\<^verbatim>\<open>Z\<close>
  to \<^verbatim>\<open>a\<close>..\<^verbatim>\<open>z\<close>.
\<close>

definition dquote :: char where
  "dquote = CHR 0x22"

definition squote :: char where
  "squote = CHR 0x27"

text \<open>\<^verbatim>\<open>sub in s\<close> for strings: \<open>sub\<close> occurs in \<open>s\<close> as a contiguous block.\<close>

fun contains :: "string \<Rightarrow> string \<Rightarrow> bool" where
  "contains [] sub = (sub = [])"
| "contains (c # cs) sub = (prefix sub (c # cs) \<or> contains cs sub)"

definition endswith :: "string \<Rightarrow> string \<Rightarrow> bool" where
  "endswith s suf = suffix suf s"

definition is_digit :: "char \<Rightarrow> bool" where
  "is_digit c = (c \<in> set ''0123456789'')"

text \<open>
  The characters \<^verbatim>\<open>str.strip()\<close> removes, within ASCII: tab, line feed, vertical tab,
  form feed, carriage return, the four separators 0x1C..0x1F, and space.
\<close>

definition is_space :: "char \<Rightarrow> bool" where
  "is_space c = (c \<in> set [CHR 0x09, CHR 0x0A, CHR 0x0B, CHR 0x0C, CHR 0x0D,
                            CHR 0x1C, CHR 0x1D, CHR 0x1E, CHR 0x1F, CHR 0x20])"

text \<open>
  \<^verbatim>\<open>s.strip(chars)\<close> removes every leading and every trailing character that is in
  \<open>chars\<close>; \<^verbatim>\<open>s.strip()\<close> does so for whitespace.
\<close>

definition strip_with :: "(char \<Rightarrow> bool) \<Rightarrow> string \<Rightarrow> string" where
  "strip_with p s = rev (dropWhile p (rev (dropWhile p s)))"

definition strip :: "string \<Rightarrow> string" where
  "strip s = strip_with is_space s"

definition strip_chars :: "string \<Rightarrow> string \<Rightarrow> string" where
  "strip_chars chars s = strip_with (\<lambda>c. c \<in> set chars) s"

definition lower_char :: "char \<Rightarrow> char" where
  "lower_char c =
     (case map_of (zip ''ABCDEFGHIJKLMNOPQRSTUVWXYZ'' ''abcdefghijklmnopqrstuvwxyz'') c of
        Some l \<Rightarrow> l
      | None \<Rightarrow> c)"

definition lower :: "string \<Rightarrow> string" where
  "lower s = map lower_char s"

section \<open>Progress extractor\<close>

text \<open>
  What \<^verbatim>\<open>fetch_progress\<close> can find at the log path: nothing
  (\<^verbatim>\<open>os.path.exists\<close> is false), a file whose reading raises (caught by the
  \<^verbatim>\<open>except Exception\<close> of the function), or a file read by \<^verbatim>\<open>readlines()\<close> into its
  list of lines.
\<close>

datatype file_state = Absent | Unreadable | Lines "string list"

text \<open>
  \<^verbatim>\<open>re.search(r'(\d+%) (\d+/\d+)', line)\<close>. The parentheses of the pattern are capture
  groups, not literal characters: the text matched is a run of digits, a percent sign,
  one space, a run of digits, a slash and a run of digits. \<open>match_here\<close> matches the
  pattern at the start of its argument. Each of the first two digit runs is followed in
  the pattern by a character that is not a digit, so the only run that can match is the
  longest one; the third run is greedy and ends the pattern. \<open>re_search\<close> tries the
  start positions from left to right, as \<^verbatim>\<open>re.search\<close> does, and returns the two
  groups.
\<close>

definition match_here :: "string \<Rightarrow> (string \<times> string) option" where
  "match_here s =
     (let d1 = takeWhile is_digit s; r1 = dropWhile is_digit s in
      if d1 = [] \<or> take 2 r1 \<noteq> ''% '' then None
      else
        let r2 = drop 2 r1; d2 = takeWhile is_digit r2; r3 = dropWhile is_digit r2 in
        if d2 = [] \<or> take 1 r3 \<noteq> ''/'' then None
        else
          let d3 = takeWhile is_digit (drop 1 r3) in
          if d3 = [] then None else Some (d1 @ ''%'', d2 @ ''/'' @ d3))"

fun re_search :: "string \<Rightarrow> (string \<times> string) option" where
  "re_search [] = None"
| "re_search (c # cs) =
     (case match_here (c # cs) of Some m \<Rightarrow> Some m | None \<Rightarrow> re_search cs)"

text \<open>
  The loop \<^verbatim>\<open>for line in reversed(lines)\<close>, on the reversed list: a line that has
  neither \<^verbatim>\<open>ninja\<close> nor \<^verbatim>\<open>%\<close>, or that the pattern does not match, is passed over and
  the loop goes on with the line before it.
\<close>

fun scan_lines :: "string list \<Rightarrow> string option" where
  "scan_lines [] = None"
| "scan_lines (line # rest) =
     (if contains line ''ninja'' \<or> contains line ''%'' then
        (case re_search line of
           Some (g1, g2) \<Rightarrow> Some (g1 @ '' ('' @ g2 @ '')'')
         | None \<Rightarrow> scan_lines rest)
      else scan_lines rest)"

definition fetch_progress :: "file_state \<Rightarrow> string option" where
  "fetch_progress log_file =
     (case log_file of
        Absent \<Rightarrow> None
      | Unreadable \<Rightarrow> Some ''Initializing...''
      | Lines lines \<Rightarrow>
          (case scan_lines (rev lines) of
             Some s \<Rightarrow> Some s
           | None \<Rightarrow> Some ''Initializing...''))"

section \<open>Configuration loader\<close>

text \<open>
  A configuration value is a string or, after the coercion of \<^verbatim>\<open>load_env\<close>, a
  boolean. \<open>truthy\<close> is Python's truth value, \<open>py_str\<close> the text an f-string
  gives.
\<close>

datatype cfg_value = Str string | Bool bool

type_synonym config = "string \<rightharpoonup> cfg_value"

fun truthy :: "cfg_value \<Rightarrow> bool" where
  "truthy (Str s) = (s \<noteq> [])"
| "truthy (Bool b) = b"

fun py_str :: "cfg_value \<Rightarrow> string" where
  "py_str (Str s) = s"
| "py_str (Bool b) = (if b then ''True'' else ''False'')"

text \<open>\<^verbatim>\<open>line.strip().startswith('#') or not line.strip()\<close>\<close>

definition is_skipped :: "string \<Rightarrow> bool" where
  "is_skipped line = (prefix ''#'' (strip line) \<or> strip line = [])"

text \<open>\<^verbatim>\<open>line.split('=', 1)\<close> for a line that has an \<^verbatim>\<open>=\<close>.\<close>

definition split_eq :: "string \<Rightarrow> string \<times> string" where
  "split_eq line =
     (takeWhile (\<lambda>c. c \<noteq> CHR ''='') line, drop 1 (dropWhile (\<lambda>c. c \<noteq> CHR ''='') line))"

text \<open>\<^verbatim>\<open>value.strip().strip('"').strip("'")\<close>\<close>

definition unquote :: "string \<Rightarrow> string" where
  "unquote v = strip_chars [squote] (strip_chars [dquote] (strip v))"

definition coerce :: "string \<Rightarrow> cfg_value" where
  "coerce v =
     (if lower v = ''true'' then Bool True
      else if lower v = ''false'' then Bool False
      else Str v)"

text \<open>One turn of the loop over the lines: the entry the line adds, if any.\<close>

definition parse_line :: "string \<Rightarrow> (string \<times> cfg_value) option" where
  "parse_line line =
     (if is_skipped line then None
      else if CHR ''='' \<in> set line then
        (case split_eq line of (key, v) \<Rightarrow> Some (strip key, coerce (unquote v)))
      else None)"

fun load_lines :: "config \<Rightarrow> string list \<Rightarrow> config" where
  "load_lines config [] = config"
| "load_lines config (line # rest) =
     load_lines (case parse_line line of
                   None \<Rightarrow> config
                 | Some (key, v) \<Rightarrow> config(key \<mapsto> v)) rest"

text \<open>
  The file at the path is given by its lines, or \<open>None\<close> when the path does not exist;
  then \<^verbatim>\<open>load_env\<close> prints and calls \<^verbatim>\<open>sys.exit(1)\<close>, here the result \<open>None\<close>.
\<close>

definition load_env :: "string list option \<Rightarrow> config option" where
  "load_env file = (case file of None \<Rightarrow> None | Some lines \<Rightarrow> Some (load_lines Map.empty lines))"

definition required_keys :: "string list" where
  "required_keys = [''DEVICE'', ''VARIANT'', ''BOT_TOKEN'', ''CHAT_ID'']"

text \<open>\<^verbatim>\<open>key not in CONFIG or not CONFIG[key]\<close>\<close>

definition key_missing :: "config \<Rightarrow> string \<Rightarrow> bool" where
  "key_missing config key = (case config key of None \<Rightarrow> True | Some v \<Rightarrow> \<not> truthy v)"

text \<open>The validation loop of \<^verbatim>\<open>main\<close>: the first required key that fails the test.\<close>

definition missing_key :: "config \<Rightarrow> string option" where
  "missing_key config = find (key_missing config) required_keys"

text \<open>\<^verbatim>\<open>CONFIG[key]\<close> for a required key; \<^verbatim>\<open>main\<close> reads it after the validation only.\<close>

definition required :: "config \<Rightarrow> string \<Rightarrow> cfg_value" where
  "required config key = the (config key)"

text \<open>The truth value of \<^verbatim>\<open>CONFIG.get(key)\<close>.\<close>

definition get_truthy :: "config \<Rightarrow> string \<Rightarrow> bool" where
  "get_truthy config key = (case config key of None \<Rightarrow> False | Some v \<Rightarrow> truthy v)"

section \<open>Effects\<close>

text \<open>
  A run is described by the list of its effects, in order, and by how it ends. Console
  output is recorded for the two fatal configuration errors only. Exceptions that the
  program's data decide (a missing key, a boolean where a string is needed) are in the
  model everywhere; a failure of the environment (a file that cannot be read, a tool
  that cannot be started) is in the model where the source handles it.

  A command stands for the command line the source builds, with the parts that vary:
  the number of sync jobs, the device and variant of \<^verbatim>\<open>brunch\<close>, the paths and the
  remote of \<^verbatim>\<open>rclone\<close>, the file of \<^verbatim>\<open>md5sum\<close> and \<^verbatim>\<open>ls\<close>. A message stands for one
  of the texts the source sends to the chat: the three of the sync stage, the two of the
  compile stage (the second with the progress string), the failure notice, the success
  summary (with size, checksum and the links) and the report of a packaging exception.
\<close>

datatype py_exc = CalledProcessError | FileNotFoundError | KeyError string | TypeError | OSError

datatype command =
    IoScript
  | IoCurl
  | RepoSync nat
  | RepoSyncForce
  | Brunch string string
  | RcloneCopy string string
  | RcloneLink string
  | Md5sum string
  | LsSize string
  | Poweroff

datatype message =
    SyncingMsg
  | SyncCompleteMsg
  | SyncFailedMsg
  | CompilingMsg
  | ProgressMsg string
  | BuildFailedMsg
  | SuccessMsg string string string string "string option"
  | PackagingFailedMsg py_exc

datatype console = ConfigNotFound | MissingKey string

datatype gofile_target = InitialInstallOf string | OtaJson

datatype event =
    Console console
  | SendMessage cfg_value message
  | EditMessage cfg_value int message
  | SendDocument cfg_value string
  | PinMessage cfg_value "int option"
  | GofileUpload gofile_target
  | Run command
  | RmTree string
  | Remove string

fun is_network :: "event \<Rightarrow> bool" where
  "is_network (SendMessage _ _) = True"
| "is_network (EditMessage _ _ _) = True"
| "is_network (SendDocument _ _) = True"
| "is_network (PinMessage _ _) = True"
| "is_network (GofileUpload _) = True"
| "is_network _ = False"

fun is_subprocess :: "event \<Rightarrow> bool" where
  "is_subprocess (Run _) = True"
| "is_subprocess _ = False"

datatype ending = Returned | SysExit nat | Uncaught py_exc

section \<open>Notifier client\<close>

text \<open>
  \<^verbatim>\<open>chat_id if chat_id else self.config['CHAT_ID']\<close>, and the methods of \<^verbatim>\<open>CIBot\<close> by
  the requests they post. \<^verbatim>\<open>self.message_id\<close> is passed in. What \<^verbatim>\<open>send_message\<close>
  returns is the server's answer, given by the run.
\<close>

definition target_chat :: "config \<Rightarrow> cfg_value option \<Rightarrow> cfg_value" where
  "target_chat config chat_id =
     (case chat_id of
        Some c \<Rightarrow> if truthy c then c else required config ''CHAT_ID''
      | None \<Rightarrow> required config ''CHAT_ID'')"

definition id_truthy :: "int option \<Rightarrow> bool" where
  "id_truthy message_id = (case message_id of None \<Rightarrow> False | Some i \<Rightarrow> i \<noteq> 0)"

definition send_message :: "config \<Rightarrow> message \<Rightarrow> cfg_value option \<Rightarrow> event list" where
  "send_message config text chat_id = [SendMessage (target_chat config chat_id) text]"

definition edit_message ::
  "config \<Rightarrow> int option \<Rightarrow> message \<Rightarrow> int option \<Rightarrow> cfg_value option \<Rightarrow> event list" where
  "edit_message config self_message_id text message_id chat_id =
     (let msg_id = (if id_truthy message_id then message_id else self_message_id) in
      case msg_id of
        None \<Rightarrow> []
      | Some i \<Rightarrow> if i = 0 then [] else [EditMessage (target_chat config chat_id) i text])"

definition send_document :: "config \<Rightarrow> string \<Rightarrow> cfg_value option \<Rightarrow> event list" where
  "send_document config file_path chat_id = [SendDocument (target_chat config chat_id) file_path]"

definition pin_message :: "config \<Rightarrow> int option \<Rightarrow> cfg_value option \<Rightarrow> event list" where
  "pin_message config message_id chat_id = [PinMessage (target_chat config chat_id) message_id]"

section \<open>Upload adapters\<close>

text \<open>
  A child process either cannot be started or exits with a return code and its captured
  standard output. \<^verbatim>\<open>subprocess.run\<close> raises \<^verbatim>\<open>CalledProcessError\<close> on a non-zero
  return code only when called with \<^verbatim>\<open>check=True\<close>, as \<^verbatim>\<open>check_output\<close> always is.
\<close>

datatype proc = NotStarted | Exited int string

definition subprocess_run :: "bool \<Rightarrow> proc \<Rightarrow> py_exc + int \<times> string" where
  "subprocess_run check p =
     (case p of
        NotStarted \<Rightarrow> Inl FileNotFoundError
      | Exited returncode out \<Rightarrow>
          if check \<and> returncode \<noteq> 0 then Inl CalledProcessError else Inr (returncode, out))"

definition basename :: "string \<Rightarrow> string" where
  "basename path = rev (takeWhile (\<lambda>c. c \<noteq> CHR ''/'') (rev path))"

text \<open>
  \<^verbatim>\<open>upload_rclone\<close>: the copy runs with \<^verbatim>\<open>check=True\<close>, the link without it; the
  \<^verbatim>\<open>except\<close> clause catches \<^verbatim>\<open>CalledProcessError\<close> and nothing else.
\<close>

definition upload_rclone ::
  "string \<Rightarrow> string \<Rightarrow> string \<Rightarrow> proc \<Rightarrow> proc \<Rightarrow> event list \<times> (py_exc + string)" where
  "upload_rclone file_path remote folder copy link =
     (let cmd = Run (RcloneCopy file_path (remote @ '':'' @ folder));
          cmd_link = Run (RcloneLink (remote @ '':'' @ folder @ ''/'' @ basename file_path))
      in case subprocess_run True copy of
           Inl e \<Rightarrow>
             ([cmd], if e = CalledProcessError then Inr ''Rclone Upload Failed'' else Inl e)
         | Inr _ \<Rightarrow>
             (case subprocess_run False link of
                Inl e \<Rightarrow>
                  ([cmd, cmd_link],
                   if e = CalledProcessError then Inr ''Rclone Upload Failed'' else Inl e)
              | Inr (returncode, out) \<Rightarrow> ([cmd, cmd_link], Inr (strip out))))"

text \<open>
  \<^verbatim>\<open>upload_gofile\<close> catches every exception and returns a string: the download page or
  a failure text, given by the run.
\<close>

definition upload_gofile :: "gofile_target \<Rightarrow> string \<Rightarrow> event list \<times> (py_exc + string)" where
  "upload_gofile target answer = ([GofileUpload target], Inr answer)"

definition check_output :: "command \<Rightarrow> proc \<Rightarrow> event list \<times> (py_exc + string)" where
  "check_output cmd p =
     ([Run cmd], case subprocess_run True p of Inl e \<Rightarrow> Inl e | Inr (returncode, out) \<Rightarrow> Inr (strip out))"

section \<open>Build pipeline driver\<close>

text \<open>
  Everything \<^verbatim>\<open>main\<close> reads from outside: the command line, the files it looks at,
  and the answers of the programs and servers it calls. The device output directory is
  given by its listing, file names with their sizes, or \<open>None\<close> when it does not exist.
  \<open>child_running k\<close> is whether the \<open>k\<close>-th \<^verbatim>\<open>process.poll()\<close> finds the build still
  running, \<open>log_at k\<close> the build log at that moment.
\<close>

record world =
  arg_sync :: bool
  arg_clean :: bool
  arg_clean_device :: bool
  arg_disk_optimization :: bool
  config_file :: "string list option"
  cpu_count :: nat
  io_script_exists :: bool
  send_sync :: "int option"
  sync_ret1 :: int
  sync_ret2 :: int
  residual_exists :: "string \<Rightarrow> bool"
  send_build :: "int option"
  child_running :: "nat \<Rightarrow> bool"
  log_at :: "nat \<Rightarrow> file_state"
  final_log :: file_state
  out_dir :: "(string \<times> nat) list option"
  error_log_exists :: bool
  staging_fails :: bool
  rclone_copy :: proc
  rclone_link :: proc
  gofile_initial :: string
  ota_json_exists :: bool
  gofile_json :: string
  md5sum :: proc
  ls_size :: proc

definition sync_jobs :: "nat \<Rightarrow> nat" where
  "sync_jobs cpu = (if cpu > 8 then 12 else cpu)"

definition disk_stage :: "world \<Rightarrow> event list" where
  "disk_stage w =
     (if arg_disk_optimization w then
        (if io_script_exists w then [Run IoScript] else [Run IoCurl])
      else [])"

text \<open>The sync stage: its effects and \<^verbatim>\<open>bot.message_id\<close> after it.\<close>

definition sync_stage :: "world \<Rightarrow> config \<Rightarrow> event list \<times> int option" where
  "sync_stage w config =
     (if arg_sync w then
        (let message_id = send_sync w;
             first = send_message config SyncingMsg None
                     @ [Run (RepoSync (sync_jobs (cpu_count w)))];
             retry = (if sync_ret1 w \<noteq> 0 then [Run RepoSyncForce] else []);
             ret = (if sync_ret1 w \<noteq> 0 then sync_ret2 w else sync_ret1 w)
         in (first @ retry
             @ edit_message config message_id
                 (if ret = 0 then SyncCompleteMsg else SyncFailedMsg) None None,
             message_id))
      else ([], None))"

definition out_dir_path :: "config \<Rightarrow> string" where
  "out_dir_path config = ''out/target/product/'' @ py_str (required config ''DEVICE'')"

definition clean_stage :: "world \<Rightarrow> config \<Rightarrow> event list" where
  "clean_stage w config =
     (if arg_clean w then [RmTree ''out''] else [])
     @ (if arg_clean_device w then [RmTree (out_dir_path config)] else [])"

definition prepare_stage :: "world \<Rightarrow> event list" where
  "prepare_stage w =
     map Remove (filter (residual_exists w) [''out/error.log'', ''out/.lock'', ''build.log''])"

definition compile_start :: "world \<Rightarrow> config \<Rightarrow> event list" where
  "compile_start w config =
     send_message config CompilingMsg None
     @ [Run (Brunch (py_str (required config ''DEVICE'')) (py_str (required config ''VARIANT'')))]"

text \<open>
  One turn of the polling loop, lines 292 to 302: the progress string
  \<^verbatim>\<open>bot.edit_message\<close> is called with, if it is called, and \<^verbatim>\<open>previous_prog\<close> after
  the turn.
\<close>

definition poll_body :: "string option \<Rightarrow> string \<Rightarrow> string option \<times> string" where
  "poll_body current_prog previous_prog =
     (case current_prog of
        None \<Rightarrow> (None, previous_prog)
      | Some s \<Rightarrow>
          if s \<noteq> [] \<and> s \<noteq> previous_prog then (Some s, s) else (None, previous_prog))"

text \<open>
  \<^verbatim>\<open>while process.poll() is None\<close>: the loop has no bound of its own and ends when the
  child does. \<open>None\<close> is the run in which it never ends.
\<close>

partial_function (option) poll_loop ::
  "(nat \<Rightarrow> bool) \<Rightarrow> (nat \<Rightarrow> file_state) \<Rightarrow> (string \<Rightarrow> event list) \<Rightarrow>
   nat \<Rightarrow> string \<Rightarrow> event list \<Rightarrow> (event list \<times> string) option" where
  "poll_loop running log edit k previous_prog done =
     (if running k then
        (case poll_body (fetch_progress (log k)) previous_prog of
           (None, prev) \<Rightarrow> poll_loop running log edit (Suc k) prev done
         | (Some s, prev) \<Rightarrow> poll_loop running log edit (Suc k) prev (done @ edit s))
      else Some (done, previous_prog))"

declare poll_loop.simps [code]

text \<open>
  What a finished loop has done, started at poll \<open>k\<close> with \<open>prev\<close> remembered and
  the effects \<open>done\<close> behind it: the child stopped at some poll \<open>n\<close>, and the edits
  were made for a list of progress strings, each read at a poll before \<open>n\<close>, each
  different from the one before it and the first different from \<open>prev\<close>; the last of
  them is remembered.
\<close>

definition loop_trace ::
  "(nat \<Rightarrow> bool) \<Rightarrow> (nat \<Rightarrow> file_state) \<Rightarrow> (string \<Rightarrow> event list) \<Rightarrow>
   nat \<Rightarrow> string \<Rightarrow> event list \<Rightarrow> event list \<times> string \<Rightarrow> bool" where
  "loop_trace running log edit k prev done r =
     (\<exists>n progs. k \<le> n \<and> (\<forall>j. k \<le> j \<and> j < n \<longrightarrow> running j) \<and> \<not> running n
        \<and> fst r = done @ concat (map edit progs)
        \<and> distinct_adj (prev # progs)
        \<and> (\<forall>s \<in> set progs. \<exists>j. k \<le> j \<and> j < n \<and> fetch_progress (log j) = Some s)
        \<and> snd r = last (prev # progs))"

text \<open>The evaluation of the build, lines 308 to 323.\<close>

definition log_says_success :: "file_state \<Rightarrow> bool" where
  "log_says_success log =
     (case log of
        Lines lines \<Rightarrow> contains (concat lines) ''build completed successfully''
      | _ \<Rightarrow> False)"

text \<open>
  \<^verbatim>\<open>[f for f in os.listdir(out_dir) if CONFIG['DEVICE'] in f and f.endswith(".zip")]\<close>.
  When the device identifier is a boolean, \<^verbatim>\<open>in\<close> raises \<^verbatim>\<open>TypeError\<close> at the first
  file.
\<close>

definition zip_candidates ::
  "cfg_value \<Rightarrow> (string \<times> nat) list \<Rightarrow> py_exc + (string \<times> nat) list" where
  "zip_candidates device listing =
     (case device of
        Str d \<Rightarrow> Inr (filter (\<lambda>f. contains (fst f) d \<and> endswith (fst f) ''.zip'') listing)
      | Bool b \<Rightarrow> if listing = [] then Inr [] else Inl TypeError)"

definition evaluate ::
  "file_state \<Rightarrow> cfg_value \<Rightarrow> (string \<times> nat) list option \<Rightarrow> py_exc + bool" where
  "evaluate log device dir =
     (if log_says_success log then Inr True
      else
        case dir of
          None \<Rightarrow> Inr False
        | Some listing \<Rightarrow>
            (case zip_candidates device listing of
               Inl e \<Rightarrow> Inl e
             | Inr files \<Rightarrow> Inr (files \<noteq> [])))"

definition failure_path :: "world \<Rightarrow> config \<Rightarrow> int option \<Rightarrow> event list" where
  "failure_path w config message_id =
     (let target_error_chat =
            (if get_truthy config ''ERROR_CHAT_ID'' then the (config ''ERROR_CHAT_ID'')
             else required config ''CHAT_ID'')
      in edit_message config message_id BuildFailedMsg None (Some target_error_chat)
         @ (if error_log_exists w
            then send_document config ''out/error.log'' (Some target_error_chat) else []))"

text \<open>
  The choice of the main artifact, lines 338 to 350. \<^verbatim>\<open>sort(key=size, reverse=True)\<close>
  is stable: files of equal size keep their order.
\<close>

definition is_main_file :: "string \<Rightarrow> bool" where
  "is_main_file f = (\<not> contains (lower f) ''ota'' \<and> \<not> contains (lower f) ''target_files'')"

definition by_size_desc :: "(string \<times> nat) list \<Rightarrow> (string \<times> nat) list" where
  "by_size_desc files = sort_key (\<lambda>f. - int (snd f)) files"

definition pick_rom :: "(string \<times> nat) list \<Rightarrow> py_exc + string" where
  "pick_rom all_files =
     (if all_files = [] then Inl FileNotFoundError
      else
        let main_files = filter (\<lambda>f. is_main_file (fst f)) all_files in
        if main_files \<noteq> [] then Inr (fst (hd (by_size_desc main_files)))
        else Inr (fst (hd (by_size_desc all_files))))"

definition select_rom :: "cfg_value \<Rightarrow> (string \<times> nat) list option \<Rightarrow> py_exc + string" where
  "select_rom device dir =
     (case dir of
        None \<Rightarrow> Inl FileNotFoundError
      | Some listing \<Rightarrow>
          (case zip_candidates device listing of
             Inl e \<Rightarrow> Inl e
           | Inr all_files \<Rightarrow> pick_rom all_files))"

text \<open>
  The body of the \<^verbatim>\<open>try\<close> of the packaging runs step by step and stops at the first
  exception.
\<close>

definition and_then ::
  "event list \<times> (py_exc + 'a) \<Rightarrow> ('a \<Rightarrow> event list \<times> (py_exc + 'b)) \<Rightarrow>
   event list \<times> (py_exc + 'b)" where
  "and_then m f =
     (case m of
        (es, Inl e) \<Rightarrow> (es, Inl e)
      | (es, Inr a) \<Rightarrow> (case f a of (es', r) \<Rightarrow> (es @ es', r)))"

definition getitem :: "config \<Rightarrow> string \<Rightarrow> event list \<times> (py_exc + cfg_value)" where
  "getitem config key =
     ([], case config key of None \<Rightarrow> Inl (KeyError key) | Some v \<Rightarrow> Inr v)"

text \<open>
  Lines 354 to 375 (the staging folder, the copies, the two text files, the archive)
  touch the file system only; of them the model keeps whether they raise.
\<close>

definition staging :: "world \<Rightarrow> event list \<times> (py_exc + unit)" where
  "staging w = ([], if staging_fails w then Inl OSError else Inr ())"

definition upload_json :: "world \<Rightarrow> event list \<times> (py_exc + string option)" where
  "upload_json w =
     (if ota_json_exists w then
        and_then (upload_gofile OtaJson (gofile_json w))
          (\<lambda>uploaded_json.
             ([], Inr (if contains uploaded_json ''http'' then Some uploaded_json else None)))
      else ([], Inr None))"

definition packaging :: "world \<Rightarrow> config \<Rightarrow> int option \<Rightarrow> event list \<times> (py_exc + unit)" where
  "packaging w config message_id =
     and_then ([], select_rom (required config ''DEVICE'') (out_dir w)) (\<lambda>rom_filename.
     let rom_zip = out_dir_path config @ ''/'' @ rom_filename in
     and_then (staging w) (\<lambda>_.
     and_then (getitem config ''RCLONE_REMOTE'') (\<lambda>remote.
     and_then (getitem config ''RCLONE_FOLDER'') (\<lambda>folder.
     and_then (upload_rclone rom_zip (py_str remote) (py_str folder)
                 (rclone_copy w) (rclone_link w)) (\<lambda>rom_link.
     and_then (upload_gofile (InitialInstallOf rom_zip) (gofile_initial w)) (\<lambda>initial_link.
     and_then (upload_json w) (\<lambda>json_link.
     and_then (check_output (Md5sum rom_zip) (md5sum w)) (\<lambda>md5.
     and_then (check_output (LsSize rom_zip) (ls_size w)) (\<lambda>size_human.
       (edit_message config message_id
          (SuccessMsg size_human md5 rom_link initial_link json_link) None None
        @ pin_message config message_id None,
        Inr ()))))))))))"

text \<open>
  From the evaluation to the end of \<^verbatim>\<open>main\<close>, lines 306 to 417: the failure path ends
  in \<^verbatim>\<open>sys.exit(1)\<close>; the other path packages, reports an exception of the packaging
  in a message, and then reaches the power-off test.
\<close>

definition post_build :: "world \<Rightarrow> config \<Rightarrow> int option \<Rightarrow> event list \<times> ending" where
  "post_build w config message_id =
     (case evaluate (final_log w) (required config ''DEVICE'') (out_dir w) of
        Inl e \<Rightarrow> ([], Uncaught e)
      | Inr build_success \<Rightarrow>
          if \<not> build_success then (failure_path w config message_id, SysExit 1)
          else
            (case packaging w config message_id of
               (packaged, r) \<Rightarrow>
                 (packaged
                  @ (case r of
                       Inl e \<Rightarrow> send_message config (PackagingFailedMsg e) None
                     | Inr _ \<Rightarrow> [])
                  @ (if get_truthy config ''POWEROFF'' then [Run Poweroff] else []),
                  Returned)))"

text \<open>The stages before the child is started, lines 205 to 288.\<close>

definition pre_build :: "world \<Rightarrow> config \<Rightarrow> event list" where
  "pre_build w config =
     disk_stage w @ fst (sync_stage w config) @ clean_stage w config @ prepare_stage w
     @ compile_start w config"

definition main :: "world \<Rightarrow> (event list \<times> ending) option" where
  "main w =
     (case load_env (config_file w) of
        None \<Rightarrow> Some ([Console ConfigNotFound], SysExit 1)
      | Some config \<Rightarrow>
          (case missing_key config of
             Some key \<Rightarrow> Some ([Console (MissingKey key)], SysExit 1)
           | None \<Rightarrow>
               (case poll_loop (child_running w) (log_at w)
                       (\<lambda>s. edit_message config (send_build w) (ProgressMsg s) None None)
                       0 [] [] of
                  None \<Rightarrow> None
                | Some (polled, previous_prog) \<Rightarrow>
                    (case post_build w config (send_build w) of
                       (after, e) \<Rightarrow> Some (pre_build w config @ polled @ after, e)))))"

text \<open>The test of line 415, \<^verbatim>\<open>CONFIG.get('POWEROFF')\<close>, on the configuration of the run.\<close>

definition poweroff_configured :: "world \<Rightarrow> bool" where
  "poweroff_configured w =
     (case load_env (config_file w) of
        None \<Rightarrow> False
      | Some config \<Rightarrow> get_truthy config ''POWEROFF'')"

section \<open>Example runs\<close>

text \<open>
  A configuration with the four required keys and the power-off flag, and a run with
  it: the sync stage is on and both sync invocations exit with 1, the child is found
  running at the first two polls, the log then shows a progress indicator, and at the
  end there is neither a success phrase in the log nor an output directory.
\<close>

definition example_config :: "string list" where
  "example_config =
     [''# build settings'', ''DEVICE=a'', ''VARIANT=user'', ''BOT_TOKEN=t'', ''CHAT_ID=5'',
      ''POWEROFF=true'']"

definition example_world :: world where
  "example_world =
     \<lparr> arg_sync = True, arg_clean = False, arg_clean_device = False,
       arg_disk_optimization = False, config_file = Some example_config, cpu_count = 16,
       io_script_exists = False, send_sync = Some 7, sync_ret1 = 1, sync_ret2 = 1,
       residual_exists = (\<lambda>f. False), send_build = Some 8,
       child_running = (\<lambda>k. k < 2), log_at = (\<lambda>k. Lines [''[ 37% 37/100] CC a.o'']),
       final_log = Lines [''[ 37% 37/100] CC a.o'', ''FAILED: a.o''], out_dir = None,
       error_log_exists = True, staging_fails = False, rclone_copy = Exited 0 [],
       rclone_link = Exited 0 [], gofile_initial = [], ota_json_exists = False,
       gofile_json = [], md5sum = Exited 0 [], ls_size = Exited 0 [] \<rparr>"

section \<open>Properties of the progress extractor\<close>

lemma contains_char: "contains s [c] = (c \<in> set s)"
  by (induction s) auto

lemma match_here_percent: "match_here s = Some m \<Longrightarrow> CHR ''%'' \<in> set s"
proof -
  assume a: "match_here s = Some m"
  then have "take 2 (dropWhile is_digit s) = ''% ''"
    by (auto simp: match_here_def Let_def split: if_splits)
  then have "CHR ''%'' \<in> set (take 2 (dropWhile is_digit s))" by simp
  then have "CHR ''%'' \<in> set (dropWhile is_digit s)" by (rule in_set_takeD)
  then show ?thesis by (rule set_mp[OF set_dropWhileD[THEN subsetI], rotated]) 
qed

lemma re_search_percent: "re_search s = Some m \<Longrightarrow> CHR ''%'' \<in> set s"
  by (induction s) (auto split: option.splits dest: match_here_percent)

lemma re_search_guard: "re_search s = Some m \<Longrightarrow> contains s ''%''"
  using re_search_percent [of s m] by (simp add: contains_char)

lemma match_here_digit: "match_here s = Some (g1, g2) \<Longrightarrow> g1 \<noteq> [] \<and> is_digit (hd g1)"
proof -
  assume a: "match_here s = Some (g1, g2)"
  then have g: "g1 = takeWhile is_digit s @ ''%''" and ne: "takeWhile is_digit s \<noteq> []"
    by (auto simp: match_here_def Let_def split: if_splits)
  from ne have "hd (takeWhile is_digit s) \<in> set (takeWhile is_digit s)" by simp
  then have "is_digit (hd (takeWhile is_digit s))" by (rule set_takeWhileD[THEN conjunct2])
  with g ne show ?thesis by simp
qed

lemma re_search_digit: "re_search s = Some (g1, g2) \<Longrightarrow> g1 \<noteq> [] \<and> is_digit (hd g1)"
  by (induction s) (auto split: option.splits dest: match_here_digit)

lemma formatted_not_sentinel:
  "re_search s = Some (g1, g2) \<Longrightarrow> g1 @ '' ('' @ g2 @ '')'' \<noteq> ''Initializing...''"
proof
  assume a: "re_search s = Some (g1, g2)" and e: "g1 @ '' ('' @ g2 @ '')'' = ''Initializing...''"
  from re_search_digit [OF a] have ne: "g1 \<noteq> []" and d: "is_digit (hd g1)" by simp_all
  from ne have "hd (g1 @ '' ('' @ g2 @ '')'') = hd g1" by simp
  with e have "hd g1 = CHR ''I''" by simp
  with d show False by (simp add: is_digit_def)
qed

lemma scan_lines_skip:
  "\<forall>l \<in> set xs. re_search l = None \<Longrightarrow> scan_lines (xs @ ys) = scan_lines ys"
  by (induction xs) auto

lemma scan_lines_hit:
  "re_search l = Some (g1, g2) \<Longrightarrow> scan_lines (l # ys) = Some (g1 @ '' ('' @ g2 @ '')'')"
  using re_search_guard [of l "(g1, g2)"] by simp

lemma scan_lines_None:
  "scan_lines xs = None \<longleftrightarrow> (\<forall>l \<in> set xs. re_search l = None)"
proof (induction xs)
  case Nil
  then show ?case by simp
next
  case (Cons l xs)
  show ?case
  proof (cases "re_search l")
    case None
    with Cons show ?thesis by simp
  next
    case (Some m)
    then have "contains l ''%''" by (rule re_search_guard)
    with Some show ?thesis by (cases m) simp
  qed
qed

lemma scan_lines_Some_not_sentinel: "scan_lines xs = Some s \<Longrightarrow> s \<noteq> ''Initializing...''"
proof (induction xs)
  case Nil
  then show ?case by simp
next
  case (Cons l xs)
  show ?case
  proof (cases "re_search l")
    case None
    with Cons show ?thesis by (simp split: if_splits)
  next
    case (Some m)
    obtain g1 g2 where m: "m = (g1, g2)" by (cases m)
    from Some m have r: "re_search l = Some (g1, g2)" by simp
    then have "scan_lines (l # xs) = Some (g1 @ '' ('' @ g2 @ '')'')"
      by (rule scan_lines_hit)
    with Cons.prems have "s = g1 @ '' ('' @ g2 @ '')''" by simp
    with formatted_not_sentinel [of l g1 g2] Some m show ?thesis by simp
  qed
qed

text \<open>
  Claim C1, as the code has it. The pattern has no literal parentheses, so it matches a
  progress indicator written \<^verbatim>\<open>37% 37/100\<close>, the form the build tool prints, and the
  extractor adds the parentheses. Scanning from the end, the result comes from the last
  line of the log that the pattern matches: when a line matches with the groups
  \<open>percent\<close> and \<open>fraction\<close> and no line after it matches, the extractor returns
  \<open>percent (fraction)\<close>, whatever the lines before it are. Every line that has
  \<^verbatim>\<open>ninja\<close> or \<^verbatim>\<open>%\<close> is tested until one matches.
\<close>

theorem fetch_progress_last_match:
  assumes "re_search line = Some (percent, fraction)"
      and "\<forall>l \<in> set after. re_search l = None"
  shows "fetch_progress (Lines (before @ line # after))
         = Some (percent @ '' ('' @ fraction @ '')'')"
proof -
  have "scan_lines (rev (before @ line # after)) = scan_lines (rev after @ line # rev before)"
    by simp
  also have "\<dots> = scan_lines (line # rev before)"
    using assms(2) by (intro scan_lines_skip) simp
  also have "\<dots> = Some (percent @ '' ('' @ fraction @ '')'')"
    using assms(1) by (rule scan_lines_hit)
  finally show ?thesis by (simp add: fetch_progress_def)
qed

text \<open>
  The theorem at a log that ends with \<^verbatim>\<open>ninja: 10% 1/10\<close>, \<^verbatim>\<open>ninja: 37% 37/100\<close> and a
  line without progress.
\<close>

theorem fetch_progress_last_match_witness:
  "re_search ''ninja: 37% 37/100'' = Some (''37%'', ''37/100'')
   \<and> re_search ''warning: unused variable'' = None
   \<and> fetch_progress (Lines [''ninja: 10% 1/10'', ''ninja: 37% 37/100'', ''warning: unused variable''])
       = Some ''37% (37/100)''"
proof -
  have a: "re_search ''ninja: 37% 37/100'' = Some (''37%'', ''37/100'')"
    by (simp add: match_here_def is_digit_def)
  have b: "re_search ''warning: unused variable'' = None"
    by (simp add: match_here_def is_digit_def)
  have c: "\<forall>l \<in> set [''warning: unused variable'']. re_search l = None"
    using b by simp
  from fetch_progress_last_match [OF a c, of "[''ninja: 10% 1/10'']"] a b
  show ?thesis by simp
qed

text \<open>
  On the two lines as the specification writes them, with the fraction in parentheses,
  the pattern matches neither line and the extractor returns the sentinel.
\<close>

theorem fetch_progress_parenthesised_counterexample:
  "fetch_progress (Lines [''ninja: 10% (1/10)'', ''ninja: 37% (37/100)''])
     = Some ''Initializing...''
   \<and> fetch_progress (Lines [''ninja: 10% (1/10)'', ''ninja: 37% (37/100)''])
     \<noteq> Some ''37% (37/100)''"
  by (simp add: fetch_progress_def match_here_def is_digit_def)

text \<open>
  Claim C7. When the log path does not exist the extractor returns the absent result,
  which is not the sentinel \<^verbatim>\<open>Initializing...\<close>. The sentinel is returned exactly when
  the file exists and either reading it raises or no line that has \<^verbatim>\<open>ninja\<close> or
  \<^verbatim>\<open>%\<close> matches the pattern.
\<close>

theorem fetch_progress_absent_not_sentinel:
  "fetch_progress Absent = None
   \<and> fetch_progress Absent \<noteq> Some ''Initializing...''
   \<and> (fetch_progress st = Some ''Initializing...'' \<longleftrightarrow>
        st = Unreadable
        \<or> (\<exists>lines. st = Lines lines
             \<and> (\<forall>l \<in> set lines.
                  \<not> ((contains l ''ninja'' \<or> contains l ''%'') \<and> re_search l \<noteq> None))))"
proof -
  have g: "(\<not> ((contains l ''ninja'' \<or> contains l ''%'') \<and> re_search l \<noteq> None))
              = (re_search l = None)" for l
    using re_search_guard [of l] by (cases "re_search l") auto
  have "fetch_progress (Lines lines) = Some ''Initializing...''
        \<longleftrightarrow> (\<forall>l \<in> set lines. re_search l = None)" for lines
  proof (cases "scan_lines (rev lines)")
    case None
    then show ?thesis using scan_lines_None [of "rev lines"] by (simp add: fetch_progress_def)
  next
    case (Some s)
    then show ?thesis
      using scan_lines_None [of "rev lines"] scan_lines_Some_not_sentinel [OF Some]
      by (simp add: fetch_progress_def)
  qed
  then have "fetch_progress (Lines lines) = Some ''Initializing...''
        \<longleftrightarrow> (\<forall>l \<in> set lines.
               \<not> ((contains l ''ninja'' \<or> contains l ''%'') \<and> re_search l \<noteq> None))" for lines
    unfolding g .
  moreover have "fetch_progress Absent = None" "fetch_progress Unreadable = Some ''Initializing...''"
    by (simp_all add: fetch_progress_def)
  ultimately show ?thesis
    by (cases st) auto
qed

text \<open>The theorem at a log of two lines without a progress indicator.\<close>

theorem fetch_progress_absent_not_sentinel_witness:
  "fetch_progress (Lines [''starting build'', ''ninja: entering directory''])
     = Some ''Initializing...''
   \<and> fetch_progress Absent = None"
proof -
  have "\<forall>l \<in> set [''starting build'', ''ninja: entering directory''].
          \<not> ((contains l ''ninja'' \<or> contains l ''%'') \<and> re_search l \<noteq> None)"
    by (simp add: match_here_def is_digit_def)
  then show ?thesis
    using fetch_progress_absent_not_sentinel
            [of "Lines [''starting build'', ''ninja: entering directory'']"]
    by blast
qed

section \<open>Properties of the configuration loader\<close>

lemma strip_with_decomp:
  "\<exists>a b. s = a @ strip_with p s @ b \<and> (\<forall>c \<in> set a. p c) \<and> (\<forall>c \<in> set b. p c)"
proof -
  let ?t = "dropWhile p s"
  have t: "?t = rev (dropWhile p (rev ?t)) @ rev (takeWhile p (rev ?t))"
    by (metis rev_append rev_rev_ident takeWhile_dropWhile_id)
  have "s = takeWhile p s @ strip_with p s @ rev (takeWhile p (rev ?t))"
    using t by (simp add: strip_with_def)
  moreover have "\<forall>c \<in> set (takeWhile p s). p c"
    by (auto dest: set_takeWhileD)
  moreover have "\<forall>c \<in> set (rev (takeWhile p (rev ?t))). p c"
    by (auto dest: set_takeWhileD)
  ultimately show ?thesis by blast
qed

lemma last_dropWhile: "dropWhile p xs \<noteq> [] \<Longrightarrow> last (dropWhile p xs) = last xs"
  by (induction xs) (auto split: if_splits)

lemma strip_with_ends:
  assumes "strip_with p s \<noteq> []"
  shows "\<not> p (hd (strip_with p s)) \<and> \<not> p (last (strip_with p s))"
proof -
  let ?t = "dropWhile p s"
  let ?u = "dropWhile p (rev ?t)"
  from assms have u: "?u \<noteq> []" by (simp add: strip_with_def)
  have t: "?t \<noteq> []"
  proof
    assume e: "?t = []"
    have "?u = []" unfolding e by simp
    with u show False by contradiction
  qed
  have "last (strip_with p s) = hd ?u"
    using u by (simp add: strip_with_def last_rev)
  moreover have "\<not> p (hd ?u)" using u by (rule hd_dropWhile)
  moreover have "hd (strip_with p s) = last ?u"
    using u by (simp add: strip_with_def hd_rev)
  moreover have "last ?u = last (rev ?t)"
    using u by (rule last_dropWhile)
  moreover have "last (rev ?t) = hd ?t" using t by (simp add: last_rev)
  moreover have "\<not> p (hd ?t)" using t by (rule hd_dropWhile)
  ultimately show ?thesis by simp
qed

lemma split_eq_joins:
  assumes "CHR ''='' \<in> set line"
  shows "line = fst (split_eq line) @ ''='' @ snd (split_eq line)
         \<and> CHR ''='' \<notin> set (fst (split_eq line))"
proof -
  let ?p = "\<lambda>c. c \<noteq> CHR ''=''"
  from assms have ne: "dropWhile ?p line \<noteq> []" by simp
  then have "hd (dropWhile ?p line) = CHR ''=''"
    using hd_dropWhile [of ?p line] by simp
  with ne have "dropWhile ?p line = CHR ''='' # drop 1 (dropWhile ?p line)"
    by (cases "dropWhile ?p line") simp_all
  then have "line = takeWhile ?p line @ CHR ''='' # drop 1 (dropWhile ?p line)"
    by (metis takeWhile_dropWhile_id)
  moreover have "CHR ''='' \<notin> set (takeWhile ?p line)"
    by (auto dest: set_takeWhileD)
  ultimately show ?thesis by (simp add: split_eq_def)
qed

lemmas str_eval = parse_line_def is_skipped_def strip_def strip_with_def is_space_def split_eq_def
  unquote_def strip_chars_def coerce_def lower_def lower_char_def dquote_def squote_def

text \<open>
  Claim C3, as the code has it. For a line that is neither blank nor a comment and has
  an \<^verbatim>\<open>=\<close>, the loader splits at the first \<^verbatim>\<open>=\<close>, trims key and value, and then
  removes from the trimmed value every leading and trailing double quote, however many
  there are, and after that every leading and trailing single quote, whether or not the
  quotes on the two sides match. The entry stored is the trimmed key with the coerced
  rest.
\<close>

theorem load_env_strips_every_quote:
  assumes "\<not> is_skipped line" and "CHR ''='' \<in> set line"
  shows "\<exists>key raw mid v a b c d.
           line = key @ ''='' @ raw \<and> CHR ''='' \<notin> set key
         \<and> load_lines config (line # rest) = load_lines (config(strip key \<mapsto> coerce v)) rest
         \<and> strip raw = a @ mid @ b \<and> set a \<subseteq> {dquote} \<and> set b \<subseteq> {dquote}
         \<and> (mid = [] \<or> (hd mid \<noteq> dquote \<and> last mid \<noteq> dquote))
         \<and> mid = c @ v @ d \<and> set c \<subseteq> {squote} \<and> set d \<subseteq> {squote}
         \<and> (v = [] \<or> (hd v \<noteq> squote \<and> last v \<noteq> squote))"
proof -
  obtain key raw where kr: "split_eq line = (key, raw)" by (cases "split_eq line")
  define mid where "mid = strip_chars [dquote] (strip raw)"
  define v where "v = strip_chars [squote] mid"
  from split_eq_joins [OF assms(2)] kr
  have 1: "line = key @ ''='' @ raw" and 2: "CHR ''='' \<notin> set key" by simp_all
  have 3: "load_lines config (line # rest) = load_lines (config(strip key \<mapsto> coerce v)) rest"
    using assms kr by (simp add: parse_line_def unquote_def v_def mid_def)
  obtain a b where ab: "strip raw = a @ mid @ b" "\<forall>x \<in> set a. x \<in> set [dquote]"
      "\<forall>x \<in> set b. x \<in> set [dquote]"
    using strip_with_decomp [of "strip raw" "\<lambda>c. c \<in> set [dquote]"]
    unfolding mid_def strip_chars_def by blast
  obtain c d where cd: "mid = c @ v @ d" "\<forall>x \<in> set c. x \<in> set [squote]"
      "\<forall>x \<in> set d. x \<in> set [squote]"
    using strip_with_decomp [of mid "\<lambda>c. c \<in> set [squote]"]
    unfolding v_def strip_chars_def by blast
  have 4: "mid = [] \<or> (hd mid \<noteq> dquote \<and> last mid \<noteq> dquote)"
    using strip_with_ends [of "\<lambda>c. c \<in> set [dquote]" "strip raw"]
    unfolding mid_def strip_chars_def by auto
  have 5: "v = [] \<or> (hd v \<noteq> squote \<and> last v \<noteq> squote)"
    using strip_with_ends [of "\<lambda>c. c \<in> set [squote]" mid]
    unfolding v_def strip_chars_def by auto
  from ab(2,3) cd(2,3) have 6: "set a \<subseteq> {dquote}" "set b \<subseteq> {dquote}"
      "set c \<subseteq> {squote}" "set d \<subseteq> {squote}" by auto
  from 1 2 3 ab(1) cd(1) 4 5 6 show ?thesis by blast
qed

text \<open>The theorem at a line whose value is written with two layers of double quotes.\<close>

theorem load_env_strips_every_quote_witness:
  "load_lines Map.empty [''K = '' @ [dquote, dquote] @ ''x'' @ [dquote, dquote]] ''K''
     = Some (Str ''x'')"
proof -
  let ?line = "''K = '' @ [dquote, dquote] @ ''x'' @ [dquote, dquote]"
  have a: "\<not> is_skipped ?line" by (simp add: str_eval)
  have b: "CHR ''='' \<in> set ?line" by simp
  from load_env_strips_every_quote [OF a b, of Map.empty "[]"]
  show ?thesis by (simp add: str_eval)
qed

text \<open>
  A value in two layers of double quotes loses both, and a value that opens with a double
  quote and closes with a single quote loses both quotes.
\<close>

theorem load_env_one_layer_counterexample:
  "parse_line (''K='' @ [dquote, dquote] @ ''x'' @ [dquote, dquote]) = Some (''K'', Str ''x'')
   \<and> parse_line (''K='' @ [dquote, dquote] @ ''x'' @ [dquote, dquote])
       \<noteq> Some (''K'', Str ([dquote] @ ''x'' @ [dquote]))
   \<and> parse_line (''K='' @ [dquote] @ ''x'' @ [squote]) = Some (''K'', Str ''x'')
   \<and> parse_line (''K='' @ [dquote] @ ''x'' @ [squote])
       \<noteq> Some (''K'', Str ([dquote] @ ''x'' @ [squote]))"
  by (simp add: str_eval)

section \<open>Properties of the upload adapter\<close>

text \<open>
  Claim C9. In \<^verbatim>\<open>upload_rclone\<close> a non-zero exit of the copy step gives the fixed string
  \<^verbatim>\<open>Rclone Upload Failed\<close>, and the link step is not run. When the copy exits with zero,
  the adapter returns the trimmed standard output of the link step whatever the exit
  code of that step, since it runs without \<^verbatim>\<open>check=True\<close>. A string is returned in
  these two ways only.
\<close>

theorem upload_rclone_link_exit_ignored:
  "(copy = Exited c1 o1 \<and> c1 \<noteq> 0 \<longrightarrow>
      upload_rclone f r d copy link
        = ([Run (RcloneCopy f (r @ '':'' @ d))], Inr ''Rclone Upload Failed''))
   \<and> (copy = Exited 0 o1 \<and> link = Exited c2 o2 \<longrightarrow>
      upload_rclone f r d copy link
        = ([Run (RcloneCopy f (r @ '':'' @ d)),
            Run (RcloneLink (r @ '':'' @ d @ ''/'' @ basename f))], Inr (strip o2)))
   \<and> (upload_rclone f r d copy link = (es, Inr s) \<longrightarrow>
        (\<exists>c out. copy = Exited c out \<and> c \<noteq> 0 \<and> s = ''Rclone Upload Failed'')
        \<or> (\<exists>out c out2. copy = Exited 0 out \<and> link = Exited c out2 \<and> s = strip out2))"
  by (auto simp: upload_rclone_def subprocess_run_def Let_def split: proc.splits if_splits)

text \<open>
  The theorem at a copy that succeeds followed by a link that exits with 1 and prints
  nothing, and at a copy that exits with 1.
\<close>

theorem upload_rclone_link_exit_ignored_witness:
  "upload_rclone ''out/a.zip'' ''gd'' ''roms'' (Exited 0 []) (Exited 1 [])
     = ([Run (RcloneCopy ''out/a.zip'' ''gd:roms''), Run (RcloneLink ''gd:roms/a.zip'')], Inr [])
   \<and> upload_rclone ''out/a.zip'' ''gd'' ''roms'' (Exited 1 []) (Exited 0 ''https://x'')
     = ([Run (RcloneCopy ''out/a.zip'' ''gd:roms'')], Inr ''Rclone Upload Failed'')"
proof -
  have v1: "upload_rclone ''out/a.zip'' ''gd'' ''roms'' (Exited 0 []) (Exited 1 [])
     = ([Run (RcloneCopy ''out/a.zip'' ''gd:roms''), Run (RcloneLink ''gd:roms/a.zip'')], Inr [])"
    by (simp add: upload_rclone_def subprocess_run_def basename_def strip_def strip_with_def)
  have v2: "upload_rclone ''out/a.zip'' ''gd'' ''roms'' (Exited 1 []) (Exited 0 ''https://x'')
     = ([Run (RcloneCopy ''out/a.zip'' ''gd:roms'')], Inr ''Rclone Upload Failed'')"
    by (simp add: upload_rclone_def subprocess_run_def)
  note t = upload_rclone_link_exit_ignored
             [of "Exited 0 []" 0 "[]" "''out/a.zip''" "''gd''" "''roms''" "Exited 1 []" 1 "[]"
                 "[]" "[]"]
  show ?thesis using t by (intro conjI v1 v2)
qed

section \<open>Properties of the artifact selection\<close>

lemma hd_sort_key:
  fixes k :: "'a \<Rightarrow> int"
  assumes "xs \<noteq> []"
  shows "hd (sort_key k xs) \<in> set xs \<and> (\<forall>y \<in> set xs. k (hd (sort_key k xs)) \<le> k y)"
proof -
  from assms have ne: "sort_key k xs \<noteq> []" by (metis length_0_conv length_sort)
  then obtain x rest where xr: "sort_key k xs = x # rest" by (cases "sort_key k xs") auto
  have "sorted (map k (sort_key k xs))" by (rule sorted_sort_key)
  with xr have "\<forall>y \<in> set rest. k x \<le> k y" by simp
  then have "\<forall>y \<in> set (sort_key k xs). k x \<le> k y" using xr by auto
  then have "\<forall>y \<in> set xs. k x \<le> k y" by (simp only: set_sort)
  moreover have "x \<in> set (sort_key k xs)" using xr by simp
  then have "x \<in> set xs" by (simp only: set_sort)
  moreover have "hd (sort_key k xs) = x" using xr by simp
  ultimately show ?thesis by simp
qed

lemma hd_by_size_desc:
  assumes "files \<noteq> []"
  shows "hd (by_size_desc files) \<in> set files
         \<and> (\<forall>g \<in> set files. snd g \<le> snd (hd (by_size_desc files)))"
  using hd_sort_key [OF assms, of "\<lambda>f. - int (snd f)"] by (simp add: by_size_desc_def)

lemmas rom_eval = select_rom_def zip_candidates_def endswith_def suffix_to_prefix pick_rom_def
  is_main_file_def by_size_desc_def lower_def lower_char_def

text \<open>
  Claim C5. The candidates are the files of the device output directory whose name has
  the device identifier and ends in \<^verbatim>\<open>.zip\<close>. When some candidate has neither \<^verbatim>\<open>ota\<close>
  nor \<^verbatim>\<open>target_files\<close> in its lower-cased name, the main artifact is such a candidate
  and no such candidate is larger, whatever the sizes of the excluded ones; when every
  candidate has one of the two substrings, the main artifact is a candidate that no
  candidate exceeds in size.
\<close>

theorem main_artifact_selection:
  assumes "all_files = filter (\<lambda>f. contains (fst f) d \<and> endswith (fst f) ''.zip'') listing"
      and "all_files \<noteq> []"
  shows "\<exists>rom size. select_rom (Str d) (Some listing) = Inr rom
           \<and> (rom, size) \<in> set all_files
           \<and> (if \<exists>g \<in> set all_files. is_main_file (fst g)
               then is_main_file rom
                    \<and> (\<forall>g \<in> set all_files. is_main_file (fst g) \<longrightarrow> snd g \<le> size)
               else (\<forall>g \<in> set all_files. snd g \<le> size))"
proof -
  let ?main = "filter (\<lambda>f. is_main_file (fst f)) all_files"
  have sel: "select_rom (Str d) (Some listing) = pick_rom all_files"
    using assms(1) by (simp add: select_rom_def zip_candidates_def)
  show ?thesis
  proof (cases "?main = []")
    case True
    let ?h = "hd (by_size_desc all_files)"
    from True have none: "\<not> (\<exists>g \<in> set all_files. is_main_file (fst g))"
      by (simp add: filter_empty_conv)
    have "select_rom (Str d) (Some listing) = Inr (fst ?h)"
      using sel True assms(2) by (simp add: pick_rom_def Let_def)
    moreover have "(fst ?h, snd ?h) \<in> set all_files"
      using hd_by_size_desc [OF assms(2)] by simp
    moreover have "\<forall>g \<in> set all_files. snd g \<le> snd ?h"
      using hd_by_size_desc [OF assms(2)] by simp
    ultimately show ?thesis using none by (intro exI [of _ "fst ?h"] exI [of _ "snd ?h"]) simp
  next
    case False
    let ?h = "hd (by_size_desc ?main)"
    from False have some: "\<exists>g \<in> set all_files. is_main_file (fst g)"
      by (simp add: filter_empty_conv)
    have "select_rom (Str d) (Some listing) = Inr (fst ?h)"
      using sel False assms(2) by (simp add: pick_rom_def Let_def)
    moreover have h: "?h \<in> set ?main" "\<forall>g \<in> set ?main. snd g \<le> snd ?h"
      using hd_by_size_desc [OF False] by simp_all
    moreover from h(1) have "(fst ?h, snd ?h) \<in> set all_files" "is_main_file (fst ?h)"
      by simp_all
    moreover from h(2) have "\<forall>g \<in> set all_files. is_main_file (fst g) \<longrightarrow> snd g \<le> snd ?h"
      by auto
    ultimately show ?thesis using some
      by (intro exI [of _ "fst ?h"] exI [of _ "snd ?h"]) simp
  qed
qed

text \<open>
  The theorem at the three files of the specification, where \<^verbatim>\<open>a.zip\<close> is chosen though
  \<^verbatim>\<open>a-target_files.zip\<close> is larger, and at the two excluded files alone, where the larger
  one is chosen.
\<close>

theorem main_artifact_selection_witness:
  "select_rom (Str ''a'')
     (Some [(''a-ota.zip'', 10), (''a-target_files.zip'', 50), (''a.zip'', 30)]) = Inr ''a.zip''
   \<and> select_rom (Str ''a'') (Some [(''a-ota.zip'', 10), (''a-target_files.zip'', 50)])
       = Inr ''a-target_files.zip''"
proof -
  let ?l1 = "[(''a-ota.zip'', 10::nat), (''a-target_files.zip'', 50), (''a.zip'', 30)]"
  let ?l2 = "[(''a-ota.zip'', 10::nat), (''a-target_files.zip'', 50)]"
  have a: "?l1 = filter (\<lambda>f. contains (fst f) ''a'' \<and> endswith (fst f) ''.zip'') ?l1"
    by (simp add: endswith_def suffix_to_prefix)
  have b: "?l2 = filter (\<lambda>f. contains (fst f) ''a'' \<and> endswith (fst f) ''.zip'') ?l2"
    by (simp add: endswith_def suffix_to_prefix)
  have c: "?l1 \<noteq> []" "?l2 \<noteq> []" by simp_all
  have v1: "select_rom (Str ''a'') (Some ?l1) = Inr ''a.zip''"
    by (simp add: rom_eval)
  have v2: "select_rom (Str ''a'') (Some ?l2) = Inr ''a-target_files.zip''"
    by (simp add: rom_eval)
  have e1: "\<exists>rom. select_rom (Str ''a'') (Some ?l1) = Inr rom"
    using main_artifact_selection [OF a c(1)] by (elim exE conjE) (rule exI, assumption)
  have e2: "\<exists>rom. select_rom (Str ''a'') (Some ?l2) = Inr rom"
    using main_artifact_selection [OF b c(2)] by (elim exE conjE) (rule exI, assumption)
  show ?thesis using e1 e2 by (intro conjI v1 v2)
qed

section \<open>Properties of the polling loop\<close>

lemma poll_body_cases:
  "poll_body current_prog previous_prog = (None, previous_prog)
   \<or> (\<exists>s. current_prog = Some s \<and> s \<noteq> previous_prog
           \<and> poll_body current_prog previous_prog = (Some s, s))"
  by (auto simp: poll_body_def split: option.splits)

lemma poll_loop_terminates:
  "\<not> running (k + d) \<Longrightarrow> \<exists>r. poll_loop running log edit k prev done = Some r"
proof (induction d arbitrary: k prev "done")
  case 0
  then show ?case by (subst poll_loop.simps) simp
next
  case (Suc d)
  then have "\<not> running (Suc k + d)" by simp
  then have ih: "\<exists>r. poll_loop running log edit (Suc k) p dn = Some r" for p dn
    by (rule Suc.IH)
  show ?case
  proof (cases "running k")
    case False
    then show ?thesis by (subst poll_loop.simps) simp
  next
    case True
    then show ?thesis
      using ih by (subst poll_loop.simps) (auto split: prod.splits option.splits)
  qed
qed

lemma loop_trace_stop: "\<not> running k \<Longrightarrow> loop_trace running log edit k prev done (done, prev)"
  unfolding loop_trace_def by (intro exI [of _ k] exI [of _ "[]"]) auto

lemma loop_trace_skip:
  assumes "running k" and "loop_trace running log edit (Suc k) prev done r"
  shows "loop_trace running log edit k prev done r"
proof -
  from assms(2) obtain n progs where h: "Suc k \<le> n"
      "\<forall>j. Suc k \<le> j \<and> j < n \<longrightarrow> running j" "\<not> running n"
      "fst r = done @ concat (map edit progs)" "distinct_adj (prev # progs)"
      "\<forall>s \<in> set progs. \<exists>j. Suc k \<le> j \<and> j < n \<and> fetch_progress (log j) = Some s"
      "snd r = last (prev # progs)"
    unfolding loop_trace_def by blast
  have a: "\<forall>j. k \<le> j \<and> j < n \<longrightarrow> running j"
  proof (intro allI impI)
    fix j assume "k \<le> j \<and> j < n"
    then show "running j" using h(2) assms(1) by (cases "j = k") auto
  qed
  have b: "\<forall>s \<in> set progs. \<exists>j. k \<le> j \<and> j < n \<and> fetch_progress (log j) = Some s"
    using h(6) by (meson Suc_leD)
  from h(1) have c: "k \<le> n" by simp
  show ?thesis unfolding loop_trace_def
    using a b c h(3,4,5,7) by blast
qed

lemma loop_trace_edit:
  assumes "running k" and "fetch_progress (log k) = Some s" and "s \<noteq> prev"
      and "loop_trace running log edit (Suc k) s (done @ edit s) r"
  shows "loop_trace running log edit k prev done r"
proof -
  from assms(4) obtain n progs where h: "Suc k \<le> n"
      "\<forall>j. Suc k \<le> j \<and> j < n \<longrightarrow> running j" "\<not> running n"
      "fst r = (done @ edit s) @ concat (map edit progs)" "distinct_adj (s # progs)"
      "\<forall>t \<in> set progs. \<exists>j. Suc k \<le> j \<and> j < n \<and> fetch_progress (log j) = Some t"
      "snd r = last (s # progs)"
    unfolding loop_trace_def by blast
  have a: "\<forall>j. k \<le> j \<and> j < n \<longrightarrow> running j"
  proof (intro allI impI)
    fix j assume "k \<le> j \<and> j < n"
    then show "running j" using h(2) assms(1) by (cases "j = k") auto
  qed
  have b: "\<forall>t \<in> set (s # progs). \<exists>j. k \<le> j \<and> j < n \<and> fetch_progress (log j) = Some t"
  proof
    fix t assume "t \<in> set (s # progs)"
    then consider "t = s" | "t \<in> set progs" by auto
    then show "\<exists>j. k \<le> j \<and> j < n \<and> fetch_progress (log j) = Some t"
    proof cases
      case 1
      then show ?thesis using assms(2) h(1) by (intro exI [of _ k]) simp
    next
      case 2
      then show ?thesis using h(6) by (meson Suc_leD)
    qed
  qed
  from h(1) have c: "k \<le> n" by simp
  have d: "fst r = done @ concat (map edit (s # progs))" using h(4) by simp
  have e: "distinct_adj (prev # s # progs)" using h(5) assms(3) by simp
  have f: "snd r = last (prev # s # progs)" using h(7) by simp
  show ?thesis unfolding loop_trace_def
    using a b c d e f h(3) by blast
qed

lemma poll_loop_trace:
  assumes "poll_loop running log edit k prev done = Some r"
  shows "loop_trace running log edit k prev done r"
proof (rule poll_loop.raw_induct [OF _ assms])
  fix f running log edit k prev "done" r
  assume ih: "\<And>running log edit k prev done r.
                f running log edit k prev done = Some r
                \<Longrightarrow> loop_trace running log edit k prev done r"
  assume body: "(if running k
      then case poll_body (fetch_progress (log k)) prev of
           (None, p) \<Rightarrow> f running log edit (Suc k) p done
           | (Some s, p) \<Rightarrow> f running log edit (Suc k) p (done @ edit s)
      else Some (done, prev)) = Some r"
  show "loop_trace running log edit k prev done r"
  proof (cases "running k")
    case False
    with body have "r = (done, prev)" by simp
    with False show ?thesis by (simp add: loop_trace_stop)
  next
    case True
    from poll_body_cases [of "fetch_progress (log k)" prev]
    show ?thesis
    proof (elim disjE exE conjE)
      assume "poll_body (fetch_progress (log k)) prev = (None, prev)"
      with body True have "f running log edit (Suc k) prev done = Some r" by simp
      then have "loop_trace running log edit (Suc k) prev done r" by (rule ih)
      with True show ?thesis by (rule loop_trace_skip)
    next
      fix s
      assume s: "fetch_progress (log k) = Some s" "s \<noteq> prev"
         and "poll_body (fetch_progress (log k)) prev = (Some s, s)"
      with body True have "f running log edit (Suc k) s (done @ edit s) = Some r" by simp
      then have "loop_trace running log edit (Suc k) s (done @ edit s) r" by (rule ih)
      with True s show ?thesis by (rule loop_trace_edit)
    qed
  qed
qed

text \<open>
  Claim C10. In a turn of the polling loop an absent result of the extractor calls for no
  edit and leaves the remembered progress string as it is, and a turn calls for an edit
  only when the extractor returned a string that differs from the remembered one, which
  then becomes the remembered one. Every turn of the loop is such a turn. So when the
  loop has ended, the edits made are those of a list of progress strings, each returned
  by the extractor at a poll while the child was running, no two neighbours equal and the
  first not the empty string the loop starts with; the last of them is what is remembered.
\<close>

theorem poll_loop_edits_only_on_change:
  "poll_body None previous_prog = (None, previous_prog)
   \<and> (poll_body current_prog previous_prog = (Some s, p) \<longrightarrow>
        current_prog = Some s \<and> s \<noteq> previous_prog \<and> p = s)
   \<and> (running k \<longrightarrow>
        poll_loop running log edit k previous_prog done =
          (case poll_body (fetch_progress (log k)) previous_prog of
             (None, p) \<Rightarrow> poll_loop running log edit (Suc k) p done
           | (Some s, p) \<Rightarrow> poll_loop running log edit (Suc k) p (done @ edit s)))
   \<and> (poll_loop running log edit 0 [] [] = Some (evs, final) \<longrightarrow>
        (\<exists>n progs. (\<forall>j < n. running j) \<and> \<not> running n
           \<and> evs = concat (map edit progs)
           \<and> distinct_adj ([] # progs)
           \<and> (\<forall>s \<in> set progs. \<exists>j < n. fetch_progress (log j) = Some s)
           \<and> final = last ([] # progs)))"
proof -
  have a: "poll_body None previous_prog = (None, previous_prog)"
    by (simp add: poll_body_def)
  have b: "poll_body current_prog previous_prog = (Some s, p) \<longrightarrow>
        current_prog = Some s \<and> s \<noteq> previous_prog \<and> p = s"
    using poll_body_cases [of current_prog previous_prog] by auto
  have c: "running k \<longrightarrow>
        poll_loop running log edit k previous_prog done =
          (case poll_body (fetch_progress (log k)) previous_prog of
             (None, p) \<Rightarrow> poll_loop running log edit (Suc k) p done
           | (Some s, p) \<Rightarrow> poll_loop running log edit (Suc k) p (done @ edit s))"
    by (subst poll_loop.simps) simp
  have d: "poll_loop running log edit 0 [] [] = Some (evs, final) \<longrightarrow>
        (\<exists>n progs. (\<forall>j < n. running j) \<and> \<not> running n
           \<and> evs = concat (map edit progs)
           \<and> distinct_adj ([] # progs)
           \<and> (\<forall>s \<in> set progs. \<exists>j < n. fetch_progress (log j) = Some s)
           \<and> final = last ([] # progs))"
  proof
    assume "poll_loop running log edit 0 [] [] = Some (evs, final)"
    then have "loop_trace running log edit 0 [] [] (evs, final)" by (rule poll_loop_trace)
    then show "\<exists>n progs. (\<forall>j < n. running j) \<and> \<not> running n
           \<and> evs = concat (map edit progs)
           \<and> distinct_adj ([] # progs)
           \<and> (\<forall>s \<in> set progs. \<exists>j < n. fetch_progress (log j) = Some s)
           \<and> final = last ([] # progs)"
      unfolding loop_trace_def by simp
  qed
  show ?thesis by (rule conjI [OF a conjI [OF b conjI [OF c d]]])
qed

text \<open>
  The theorem at a loop of three polls: no log at the first, the same progress line at
  the second and third. One edit is made.
\<close>

theorem poll_loop_edits_only_on_change_witness:
  "poll_loop (\<lambda>k. k < 3)
     (\<lambda>k. if k = 0 then Absent else Lines [''[ 37% 37/100] CC a.o''])
     (\<lambda>s. [EditMessage (Str ''5'') 8 (ProgressMsg s)]) 0 [] []
   = Some ([EditMessage (Str ''5'') 8 (ProgressMsg ''37% (37/100)'')], ''37% (37/100)'')"
proof -
  have v: "poll_loop (\<lambda>k. k < 3)
     (\<lambda>k. if k = 0 then Absent else Lines [''[ 37% 37/100] CC a.o''])
     (\<lambda>s. [EditMessage (Str ''5'') 8 (ProgressMsg s)]) 0 [] []
   = Some ([EditMessage (Str ''5'') 8 (ProgressMsg ''37% (37/100)'')], ''37% (37/100)'')"
    by code_simp
  note t = poll_loop_edits_only_on_change
    [of "[]" "Some ''37% (37/100)''" "''37% (37/100)''" "''37% (37/100)''" "\<lambda>k. k < 3" 0
        "\<lambda>k. if k = 0 then Absent else Lines [''[ 37% 37/100] CC a.o'']"
        "\<lambda>s. [EditMessage (Str ''5'') 8 (ProgressMsg s)]" "[]"
        "[EditMessage (Str ''5'') 8 (ProgressMsg ''37% (37/100)'')]" "''37% (37/100)''"]
  show ?thesis using t by (intro v)
qed

section \<open>Properties of the build evaluation\<close>

lemma contains_iff_sublist: "contains s sub \<longleftrightarrow> sublist sub s"
proof (induction s)
  case Nil
  then show ?case by simp
next
  case (Cons c cs)
  show ?case
  proof (cases sub)
    case Nil
    then show ?thesis by simp
  next
    case (Cons x xs)
    then show ?thesis using Cons.IH by (simp add: sublist_Cons_right)
  qed
qed

lemma snd_post_build:
  "snd (post_build w config message_id) =
     (case evaluate (final_log w) (required config ''DEVICE'') (out_dir w) of
        Inl e \<Rightarrow> Uncaught e
      | Inr build_success \<Rightarrow> if build_success then Returned else SysExit 1)"
  by (simp add: post_build_def split: sum.splits prod.splits)

text \<open>
  Claim C4. With the device identifier a string \<open>d\<close>, the evaluation after the child
  has ended gives success exactly when the build log is read and has the phrase
  \<^verbatim>\<open>build completed successfully\<close> in it, or the device output directory exists and has
  a file whose name has \<open>d\<close> in it and ends in \<^verbatim>\<open>.zip\<close>. On success the driver goes on
  and returns; otherwise it takes the failure path and exits with code 1.
\<close>

theorem build_success_rule:
  assumes "config ''DEVICE'' = Some (Str d)"
  shows "evaluate (final_log w) (required config ''DEVICE'') (out_dir w)
           = Inr ((\<exists>lines. final_log w = Lines lines
                     \<and> sublist ''build completed successfully'' (concat lines))
                  \<or> (\<exists>listing. out_dir w = Some listing
                        \<and> (\<exists>f \<in> set listing. sublist d (fst f) \<and> suffix ''.zip'' (fst f))))
         \<and> snd (post_build w config message_id)
           = (if (\<exists>lines. final_log w = Lines lines
                     \<and> sublist ''build completed successfully'' (concat lines))
                  \<or> (\<exists>listing. out_dir w = Some listing
                        \<and> (\<exists>f \<in> set listing. sublist d (fst f) \<and> suffix ''.zip'' (fst f)))
              then Returned else SysExit 1)"
proof -
  let ?phrase = "\<exists>lines. final_log w = Lines lines
                     \<and> sublist ''build completed successfully'' (concat lines)"
  let ?artifact = "\<exists>listing. out_dir w = Some listing
                        \<and> (\<exists>f \<in> set listing. sublist d (fst f) \<and> suffix ''.zip'' (fst f))"
  have dev: "required config ''DEVICE'' = Str d" using assms by (simp add: required_def)
  have p: "log_says_success (final_log w) = ?phrase"
    by (cases "final_log w") (simp_all add: log_says_success_def contains_iff_sublist)
  have e: "evaluate (final_log w) (Str d) (out_dir w) = Inr (?phrase \<or> ?artifact)"
  proof (cases "out_dir w")
    case None
    then show ?thesis by (simp add: evaluate_def p)
  next
    case (Some listing)
    then show ?thesis
      by (auto simp: evaluate_def p zip_candidates_def filter_empty_conv endswith_def
            contains_iff_sublist)
  qed
  then show ?thesis by (simp add: snd_post_build dev)
qed

text \<open>
  The theorem at three runs with device \<^verbatim>\<open>a\<close>: no phrase and no output directory;
  no phrase and \<^verbatim>\<open>a.zip\<close> in the output directory; the phrase in the log.
\<close>

theorem build_success_rule_witness:
  "snd (post_build example_world [''DEVICE'' \<mapsto> Str ''a''] (Some 8)) = SysExit 1
   \<and> snd (post_build (example_world\<lparr>out_dir := Some [(''a.zip'', 30)]\<rparr>)
            [''DEVICE'' \<mapsto> Str ''a''] (Some 8)) = Returned
   \<and> snd (post_build
            (example_world\<lparr>final_log := Lines [''#### build completed successfully ####'']\<rparr>)
            [''DEVICE'' \<mapsto> Str ''a''] (Some 8)) = Returned"
proof -
  have a: "[''DEVICE'' \<mapsto> Str ''a''] ''DEVICE'' = Some (Str ''a'')" by simp
  have v: "snd (post_build example_world [''DEVICE'' \<mapsto> Str ''a''] (Some 8)) = SysExit 1
   \<and> snd (post_build (example_world\<lparr>out_dir := Some [(''a.zip'', 30)]\<rparr>)
            [''DEVICE'' \<mapsto> Str ''a''] (Some 8)) = Returned
   \<and> snd (post_build
            (example_world\<lparr>final_log := Lines [''#### build completed successfully ####'']\<rparr>)
            [''DEVICE'' \<mapsto> Str ''a''] (Some 8)) = Returned"
    by code_simp
  note t = build_success_rule
    [where config = "[''DEVICE'' \<mapsto> Str ''a'']" and d = "''a''" and w = example_world
       and message_id = "Some 8", OF a]
  show ?thesis using t by (intro v)
qed

section \<open>Properties of the driver\<close>

lemma main_valid:
  assumes "config_file w = Some lines"
      and "missing_key (load_lines Map.empty lines) = None"
  shows "main w =
     (case poll_loop (child_running w) (log_at w)
             (\<lambda>s. edit_message (load_lines Map.empty lines) (send_build w) (ProgressMsg s)
                    None None) 0 [] [] of
        None \<Rightarrow> None
      | Some (polled, previous_prog) \<Rightarrow>
          Some (pre_build w (load_lines Map.empty lines) @ polled
                @ fst (post_build w (load_lines Map.empty lines) (send_build w)),
                snd (post_build w (load_lines Map.empty lines) (send_build w))))"
  using assms by (simp add: main_def load_env_def split: option.splits prod.splits)

lemma edit_message_events:
  "e \<in> set (edit_message config mid text m c) \<Longrightarrow> \<exists>chat i. e = EditMessage chat i text"
  by (auto simp: edit_message_def Let_def split: option.splits if_splits)

lemma polled_events:
  assumes "poll_loop running log (\<lambda>s. edit_message config mid (ProgressMsg s) m c) 0 [] []
             = Some (polled, prev)"
  shows "\<forall>e \<in> set polled. \<exists>chat i s. e = EditMessage chat i (ProgressMsg s)"
proof -
  from poll_loop_trace [OF assms] obtain progs where
    "polled = concat (map (\<lambda>s. edit_message config mid (ProgressMsg s) m c) progs)"
    unfolding loop_trace_def by auto
  then show ?thesis by (auto dest: edit_message_events)
qed

lemma and_then_all:
  assumes "\<forall>e \<in> set (fst m). P e" and "\<And>a. \<forall>e \<in> set (fst (f a)). P e"
  shows "\<forall>e \<in> set (fst (and_then m f)). P e"
proof (cases m)
  case (Pair es r)
  show ?thesis
  proof (cases r)
    case (Inl x)
    with Pair assms(1) show ?thesis by (simp add: and_then_def)
  next
    case (Inr a)
    obtain es' r' where f: "f a = (es', r')" by (cases "f a")
    from assms(2) [of a] f have "\<forall>e \<in> set es'. P e" by simp
    with Pair Inr assms(1) f show ?thesis by (auto simp: and_then_def)
  qed
qed

lemma pre_build_no_poweroff: "Run Poweroff \<notin> set (pre_build w config)"
  by (auto simp: pre_build_def disk_stage_def sync_stage_def clean_stage_def prepare_stage_def
        compile_start_def send_message_def Let_def
      dest: edit_message_events split: if_splits)

lemma failure_path_no_run: "Run c \<notin> set (failure_path w config mid)"
  by (auto simp: failure_path_def send_document_def Let_def
      dest: edit_message_events split: if_splits)

lemma post_build_success:
  assumes "evaluate (final_log w) (required config ''DEVICE'') (out_dir w) = Inr True"
      and "get_truthy config ''POWEROFF''"
  shows "\<exists>es. post_build w config mid = (es @ [Run Poweroff], Returned)"
proof -
  obtain packaged r where p: "packaging w config mid = (packaged, r)"
    by (cases "packaging w config mid")
  from assms p have "post_build w config mid =
      ((packaged @ (case r of Inl e \<Rightarrow> send_message config (PackagingFailedMsg e) None
                     | Inr _ \<Rightarrow> [])) @ [Run Poweroff], Returned)"
    by (simp add: post_build_def)
  then show ?thesis by blast
qed

lemma post_build_failure:
  "evaluate (final_log w) (required config ''DEVICE'') (out_dir w) = Inr False
   \<Longrightarrow> post_build w config mid = (failure_path w config mid, SysExit 1)"
  by (simp add: post_build_def)

lemma post_build_crash:
  "evaluate (final_log w) (required config ''DEVICE'') (out_dir w) = Inl e
   \<Longrightarrow> post_build w config mid = ([], Uncaught e)"
  by (simp add: post_build_def)

lemma packaging_no_resync:
  "\<forall>e \<in> set (fst (packaging w config mid)). e \<noteq> Run RepoSyncForce"
  unfolding packaging_def Let_def
  by (intro and_then_all allI)
     (auto simp: staging_def getitem_def upload_rclone_def upload_gofile_def upload_json_def
        check_output_def pin_message_def and_then_def Let_def
      dest: edit_message_events split: sum.splits if_splits prod.splits)

lemma post_build_no_resync: "Run RepoSyncForce \<notin> set (fst (post_build w config mid))"
proof (cases "evaluate (final_log w) (required config ''DEVICE'') (out_dir w)")
  case (Inl e)
  then show ?thesis by (simp add: post_build_crash)
next
  case (Inr b)
  show ?thesis
  proof (cases b)
    case False
    with Inr show ?thesis by (simp add: post_build_failure failure_path_no_run)
  next
    case True
    obtain packaged r where p: "packaging w config mid = (packaged, r)"
      by (cases "packaging w config mid")
    with packaging_no_resync [of w config mid] have "Run RepoSyncForce \<notin> set packaged"
      by auto
    with Inr True p show ?thesis
      by (auto simp: post_build_def send_message_def split: sum.splits)
  qed
qed

lemma find_first:
  "\<exists>x \<in> set xs. P x \<Longrightarrow> \<exists>k. find P xs = Some k \<and> k \<in> set xs \<and> P k"
  by (induction xs) auto

text \<open>
  Claim C6. When the configuration file exists and a required key is absent from it or
  has the empty string as its value, the run consists of one console line,
  \<^verbatim>\<open>ERROR: Missing ... in config file\<close>, naming a required key that fails the test, and
  of \<^verbatim>\<open>sys.exit(1)\<close>: no network call and no subprocess call is made. The key named is
  the first of \<^verbatim>\<open>DEVICE\<close>, \<^verbatim>\<open>VARIANT\<close>, \<^verbatim>\<open>BOT_TOKEN\<close>, \<^verbatim>\<open>CHAT_ID\<close> that fails
  the test, so it is the given key when no other required key fails it.
\<close>

theorem missing_key_is_fatal:
  assumes "config_file w = Some lines"
      and "key \<in> set required_keys"
      and "load_lines Map.empty lines key = None
           \<or> load_lines Map.empty lines key = Some (Str [])"
  shows "\<exists>k evs. main w = Some (evs, SysExit 1)
           \<and> evs = [Console (MissingKey k)]
           \<and> k \<in> set required_keys
           \<and> key_missing (load_lines Map.empty lines) k
           \<and> (\<forall>e \<in> set evs. \<not> is_network e \<and> \<not> is_subprocess e)
           \<and> ((\<forall>k' \<in> set required_keys.
                  key_missing (load_lines Map.empty lines) k' \<longrightarrow> k' = key) \<longrightarrow> k = key)"
proof -
  let ?config = "load_lines Map.empty lines"
  from assms(3) have "key_missing ?config key" by (auto simp: key_missing_def)
  with assms(2) have "\<exists>x \<in> set required_keys. key_missing ?config x" by blast
  then obtain k where k: "find (key_missing ?config) required_keys = Some k"
      "k \<in> set required_keys" "key_missing ?config k"
    using find_first [of required_keys "key_missing ?config"] by blast
  from k(1) assms(1) have "main w = Some ([Console (MissingKey k)], SysExit 1)"
    by (simp add: main_def load_env_def missing_key_def)
  with k(2,3) show ?thesis by auto
qed

text \<open>The theorem at a file that gives \<^verbatim>\<open>VARIANT\<close> an empty value and has no \<^verbatim>\<open>BOT_TOKEN\<close>.\<close>

theorem missing_key_is_fatal_witness:
  "main (example_world\<lparr>config_file := Some [''DEVICE=a'', ''VARIANT='', ''CHAT_ID=5'']\<rparr>)
     = Some ([Console (MissingKey ''VARIANT'')], SysExit 1)"
proof -
  let ?w = "example_world\<lparr>config_file := Some [''DEVICE=a'', ''VARIANT='', ''CHAT_ID=5'']\<rparr>"
  have v: "main ?w = Some ([Console (MissingKey ''VARIANT'')], SysExit 1)"
    by code_simp
  have a: "config_file ?w = Some [''DEVICE=a'', ''VARIANT='', ''CHAT_ID=5'']" by simp
  have b: "''VARIANT'' \<in> set required_keys" by (simp add: required_keys_def)
  have c: "load_lines Map.empty [''DEVICE=a'', ''VARIANT='', ''CHAT_ID=5''] ''VARIANT'' = None
           \<or> load_lines Map.empty [''DEVICE=a'', ''VARIANT='', ''CHAT_ID=5''] ''VARIANT''
              = Some (Str [])"
    by code_simp
  note t = missing_key_is_fatal [OF a b c]
  show ?thesis using t by (intro v)
qed

text \<open>
  Claim C2, as the code has it. In a run with a valid configuration in which the
  power-off flag is set and the child ends, the driver issues \<^verbatim>\<open>sudo poweroff\<close> as its
  last step when the build is declared successful, whether the packaging went through or
  raised. When the build is not declared successful the driver ends in \<^verbatim>\<open>sys.exit(1)\<close>
  on the failure path, or in the exception of the evaluation, and no power-off command
  is issued in the run.
\<close>

theorem poweroff_at_end_of_successful_build:
  assumes "config_file w = Some lines"
      and "missing_key (load_lines Map.empty lines) = None"
      and "poweroff_configured w"
      and "\<not> child_running w n"
  shows "\<exists>evs e. main w = Some (evs, e)
           \<and> (evaluate (final_log w) (required (load_lines Map.empty lines) ''DEVICE'')
                 (out_dir w) = Inr True
               \<longrightarrow> e = Returned \<and> evs \<noteq> [] \<and> last evs = Run Poweroff)
           \<and> (evaluate (final_log w) (required (load_lines Map.empty lines) ''DEVICE'')
                 (out_dir w) \<noteq> Inr True
               \<longrightarrow> e \<noteq> Returned \<and> Run Poweroff \<notin> set evs)"
proof -
  let ?config = "load_lines Map.empty lines"
  let ?edit = "\<lambda>s. edit_message ?config (send_build w) (ProgressMsg s) None None"
  let ?ev = "evaluate (final_log w) (required ?config ''DEVICE'') (out_dir w)"
  from assms(1,3) have off: "get_truthy ?config ''POWEROFF''"
    by (simp add: poweroff_configured_def load_env_def)
  from assms(4) have "\<not> child_running w (0 + n)" by simp
  then obtain r where "poll_loop (child_running w) (log_at w) ?edit 0 [] [] = Some r"
    using poll_loop_terminates by blast
  then obtain polled prev where
    loop: "poll_loop (child_running w) (log_at w) ?edit 0 [] [] = Some (polled, prev)"
    by (cases r) auto
  have m: "main w = Some (pre_build w ?config @ polled
                          @ fst (post_build w ?config (send_build w)),
                          snd (post_build w ?config (send_build w)))"
    using main_valid [OF assms(1,2)] loop by simp
  have np: "Run Poweroff \<notin> set polled"
    using polled_events [OF loop] by auto
  have a: "?ev = Inr True \<longrightarrow>
             snd (post_build w ?config (send_build w)) = Returned
             \<and> pre_build w ?config @ polled @ fst (post_build w ?config (send_build w)) \<noteq> []
             \<and> last (pre_build w ?config @ polled
                      @ fst (post_build w ?config (send_build w))) = Run Poweroff"
  proof
    assume "?ev = Inr True"
    from post_build_success [OF this off, of "send_build w"]
    obtain es where "post_build w ?config (send_build w) = (es @ [Run Poweroff], Returned)"
      by blast
    then show "snd (post_build w ?config (send_build w)) = Returned
             \<and> pre_build w ?config @ polled @ fst (post_build w ?config (send_build w)) \<noteq> []
             \<and> last (pre_build w ?config @ polled
                      @ fst (post_build w ?config (send_build w))) = Run Poweroff"
      by simp
  qed
  have b: "?ev \<noteq> Inr True \<longrightarrow>
             snd (post_build w ?config (send_build w)) \<noteq> Returned
             \<and> Run Poweroff \<notin> set (pre_build w ?config @ polled
                                     @ fst (post_build w ?config (send_build w)))"
  proof
    assume ne: "?ev \<noteq> Inr True"
    show "snd (post_build w ?config (send_build w)) \<noteq> Returned
             \<and> Run Poweroff \<notin> set (pre_build w ?config @ polled
                                     @ fst (post_build w ?config (send_build w)))"
    proof (cases ?ev)
      case (Inl e)
      then show ?thesis using np pre_build_no_poweroff by (simp add: post_build_crash)
    next
      case (Inr s)
      with ne have "?ev = Inr False" by simp
      then show ?thesis
        using np pre_build_no_poweroff failure_path_no_run
        by (simp add: post_build_failure)
    qed
  qed
  from m a b show ?thesis by blast
qed

text \<open>
  The theorem at a run with the flag set in which the log has the success phrase and
  there is no output directory: the packaging raises, the exception is reported, and the
  power-off command is the last effect.
\<close>

theorem poweroff_at_end_of_successful_build_witness:
  "main (example_world\<lparr>final_log := Lines [''#### build completed successfully ####'']\<rparr>)
   = Some
     ([SendMessage (Str ''5'') SyncingMsg, Run (RepoSync 12),
       Run RepoSyncForce, EditMessage (Str ''5'') 7 SyncFailedMsg,
       SendMessage (Str ''5'') CompilingMsg, Run (Brunch ''a'' ''user''),
       EditMessage (Str ''5'') 8 (ProgressMsg ''37% (37/100)''),
       SendMessage (Str ''5'') (PackagingFailedMsg FileNotFoundError),
       Run Poweroff],
      Returned)"
proof -
  let ?w = "example_world\<lparr>final_log := Lines [''#### build completed successfully ####'']\<rparr>"
  have v: "main ?w = Some
     ([SendMessage (Str ''5'') SyncingMsg, Run (RepoSync 12),
       Run RepoSyncForce, EditMessage (Str ''5'') 7 SyncFailedMsg,
       SendMessage (Str ''5'') CompilingMsg, Run (Brunch ''a'' ''user''),
       EditMessage (Str ''5'') 8 (ProgressMsg ''37% (37/100)''),
       SendMessage (Str ''5'') (PackagingFailedMsg FileNotFoundError),
       Run Poweroff],
      Returned)"
    by code_simp
  have a: "config_file ?w = Some example_config"
    by (simp add: example_world_def)
  have b: "missing_key (load_lines Map.empty example_config) = None" by code_simp
  have c: "poweroff_configured ?w" by code_simp
  have d: "\<not> child_running ?w 2" by (simp add: example_world_def)
  note t = poweroff_at_end_of_successful_build [OF a b c d]
  show ?thesis using t by (intro v)
qed

text \<open>
  A run with the flag set in which the build fails: it ends on the failure path with exit
  code 1, and its last effect is the upload of the error log, not the power-off command.
\<close>

theorem poweroff_skipped_on_build_failure_counterexample:
  "poweroff_configured example_world
   \<and> main example_world = Some
     ([SendMessage (Str ''5'') SyncingMsg, Run (RepoSync 12),
       Run RepoSyncForce, EditMessage (Str ''5'') 7 SyncFailedMsg,
       SendMessage (Str ''5'') CompilingMsg, Run (Brunch ''a'' ''user''),
       EditMessage (Str ''5'') 8 (ProgressMsg ''37% (37/100)''),
       EditMessage (Str ''5'') 8 BuildFailedMsg,
       SendDocument (Str ''5'') ''out/error.log''],
      SysExit 1)"
  by code_simp

lemma count_list_zero: "x \<notin> set xs \<Longrightarrow> count_list xs x = 0"
  by (induction xs) auto

text \<open>
  Claim C8. In a run with a valid configuration, the sync stage enabled and a first sync
  invocation that exits non-zero, the driver runs \<^verbatim>\<open>repo sync --force-sync\<close> once: after
  the status message and the first invocation comes the retry, then the edit of the
  status message, to \<^verbatim>\<open>Sync Complete\<close> when the retry exits with zero and to
  \<^verbatim>\<open>Sync Failed\<close> otherwise, and nothing else is done about the failure. The run goes on
  to the compile stage, where the build command is started, and the retry command occurs
  nowhere else in the run.
\<close>

theorem sync_failure_not_fatal:
  assumes "config_file w = Some lines"
      and "missing_key (load_lines Map.empty lines) = None"
      and "arg_sync w"
      and "sync_ret1 w \<noteq> 0"
      and "\<not> child_running w n"
  shows "\<exists>evs rest e. main w = Some (evs, e)
           \<and> evs = disk_stage w
                   @ [SendMessage (required (load_lines Map.empty lines) ''CHAT_ID'') SyncingMsg,
                      Run (RepoSync (sync_jobs (cpu_count w))),
                      Run RepoSyncForce]
                   @ edit_message (load_lines Map.empty lines) (send_sync w)
                       (if sync_ret2 w = 0 then SyncCompleteMsg else SyncFailedMsg) None None
                   @ rest
           \<and> count_list evs (Run RepoSyncForce) = 1
           \<and> Run (Brunch (py_str (required (load_lines Map.empty lines) ''DEVICE''))
                          (py_str (required (load_lines Map.empty lines) ''VARIANT'')))
               \<in> set rest"
proof -
  let ?config = "load_lines Map.empty lines"
  let ?edit = "\<lambda>s. edit_message ?config (send_build w) (ProgressMsg s) None None"
  let ?head = "disk_stage w
                   @ [SendMessage (required ?config ''CHAT_ID'') SyncingMsg,
                      Run (RepoSync (sync_jobs (cpu_count w))),
                      Run RepoSyncForce]
                   @ edit_message ?config (send_sync w)
                       (if sync_ret2 w = 0 then SyncCompleteMsg else SyncFailedMsg) None None"
  let ?brunch = "Run (Brunch (py_str (required ?config ''DEVICE''))
                             (py_str (required ?config ''VARIANT'')))"
  from assms(5) have "\<not> child_running w (0 + n)" by simp
  then obtain r where "poll_loop (child_running w) (log_at w) ?edit 0 [] [] = Some r"
    using poll_loop_terminates by blast
  then obtain polled prev where
    loop: "poll_loop (child_running w) (log_at w) ?edit 0 [] [] = Some (polled, prev)"
    by (cases r) auto
  define rest where "rest = clean_stage w ?config @ prepare_stage w @ compile_start w ?config
                            @ polled @ fst (post_build w ?config (send_build w))"
  have pre: "pre_build w ?config
             = ?head @ clean_stage w ?config @ prepare_stage w @ compile_start w ?config"
    using assms(3,4)
    by (simp add: pre_build_def sync_stage_def Let_def send_message_def target_chat_def)
  have m: "main w = Some (?head @ rest, snd (post_build w ?config (send_build w)))"
    using main_valid [OF assms(1,2)] loop by (simp add: pre rest_def)
  have np: "Run RepoSyncForce \<notin> set polled"
    using polled_events [OF loop] by auto
  have nr: "Run RepoSyncForce \<notin> set rest"
    using np post_build_no_resync [of w ?config "send_build w"]
    by (auto simp: rest_def clean_stage_def prepare_stage_def compile_start_def send_message_def)
  have nd: "Run RepoSyncForce \<notin> set (disk_stage w)"
    by (simp add: disk_stage_def)
  have ne: "Run RepoSyncForce \<notin> set (edit_message ?config (send_sync w)
              (if sync_ret2 w = 0 then SyncCompleteMsg else SyncFailedMsg) None None)"
    by (auto dest: edit_message_events)
  have c: "count_list (?head @ rest) (Run RepoSyncForce) = 1"
    using nr nd ne by (simp add: count_list_zero)
  have b: "?brunch \<in> set rest"
    by (simp add: rest_def compile_start_def)
  show ?thesis
    using m c b
    by (intro exI [of _ "?head @ rest"] exI [of _ rest]
          exI [of _ "snd (post_build w ?config (send_build w))"] conjI) simp_all
qed

text \<open>
  The theorem at a run in which both sync invocations exit with 1: the status message is
  edited to the failure notice and the build is started.
\<close>

theorem sync_failure_not_fatal_witness:
  "main example_world = Some
     ([SendMessage (Str ''5'') SyncingMsg, Run (RepoSync 12),
       Run RepoSyncForce, EditMessage (Str ''5'') 7 SyncFailedMsg,
       SendMessage (Str ''5'') CompilingMsg, Run (Brunch ''a'' ''user''),
       EditMessage (Str ''5'') 8 (ProgressMsg ''37% (37/100)''),
       EditMessage (Str ''5'') 8 BuildFailedMsg,
       SendDocument (Str ''5'') ''out/error.log''],
      SysExit 1)"
proof -
  have v: "main example_world = Some
     ([SendMessage (Str ''5'') SyncingMsg, Run (RepoSync 12),
       Run RepoSyncForce, EditMessage (Str ''5'') 7 SyncFailedMsg,
       SendMessage (Str ''5'') CompilingMsg, Run (Brunch ''a'' ''user''),
       EditMessage (Str ''5'') 8 (ProgressMsg ''37% (37/100)''),
       EditMessage (Str ''5'') 8 BuildFailedMsg,
       SendDocument (Str ''5'') ''out/error.log''],
      SysExit 1)"
    by code_simp
  have a: "config_file example_world = Some example_config"
    by (simp add: example_world_def)
  have b: "missing_key (load_lines Map.empty example_config) = None" by code_simp
  have c: "arg_sync example_world" by (simp add: example_world_def)
  have d: "sync_ret1 example_world \<noteq> 0" by (simp add: example_world_def)
  have e: "\<not> child_running example_world 2" by (simp add: example_world_def)
  note t = sync_failure_not_fatal [OF a b c d e]
  show ?thesis using t by (intro v)
qed

end
